theory Spec2Isabelle
  imports Complex_Main "HOL-Library.AList"
begin

section \<open>Data of \<open>get_protein_mass_mapping.py\<close>\<close>

text \<open>
  A protein mass is a Python \<open>float\<close>. The module never computes with it: a mass is
  parsed once, stored, pickled and copied. It is modelled as a real number.
\<close>

type_synonym mass = real

text \<open>
  A Python \<open>dict\<close> keeps its keys in insertion order: assigning to a key that is present
  replaces the value in place, assigning to a new key appends it. That is
  \<^const>\<open>AList.update\<close> on an association list; \<open>d[k]\<close> is \<^const>\<open>map_of\<close>,
  \<open>list(d.keys())\<close> is \<open>map fst d\<close>.
\<close>

type_synonym ('k, 'v) dict = "('k \<times> 'v) list"

abbreviation dict_keys :: "('k, 'v) dict \<Rightarrow> 'k list" where
  "dict_keys d \<equiv> map fst d"

text \<open>
  A gene of \<open>model.genes\<close>: its \<open>id\<close> and its \<open>annotation\<close> dictionary. The value under
  \<open>"uniprot"\<close> is taken to be one string, as the type of
  \<open>uniprot_id_protein_id_mapping\<close> (\<open>Dict[str, List[str]]\<close>) says. In a \<open>cobra.Model\<close>,
  \<open>model.genes\<close> is a \<open>DictList\<close>, which holds no two genes with the same \<open>id\<close>; the model
  takes any list of genes, and a theorem that needs distinct \<open>id\<close>s assumes them.
\<close>

record gene =
  gene_id :: string
  annotation :: "(string, string) dict"

text \<open>What \<open>requests.get\<close> gives: it raises, or returns a response with \<open>ok\<close> and \<open>text\<close>.\<close>

datatype http_result = RequestException | Response bool string

text \<open>
  The remote side of a run. \<open>requests_get url\<close> is the result of the GET request;
  \<open>float_mass body\<close> is the value of \<open>float(json.loads(body)["sequence"]["mass"])\<close>,
  \<open>None\<close> when \<open>json.loads\<close>, one of the two subscripts or \<open>float\<close> raises.
\<close>

record remote =
  requests_get :: "string \<Rightarrow> http_result"
  float_mass :: "string \<Rightarrow> mass option"

text \<open>A file of the cache folder: a pickled float, or bytes that do not unpickle.\<close>

datatype pickle = Pickled mass | Corrupt

datatype file_content = JsonFile "(string, mass) dict" | OtherFile string

text \<open>The lines printed by the module.\<close>

datatype message =
    StartingSearch
  | CachedMass string mass
  | UniProtSearchFor string
  | NoMassFound string
  | MappingDone

text \<open>
  What a run reads and changes: the files of \<open>./_cache/uniprot/\<close> by name, the other
  files by path, the printed lines, the URLs requested and the number of calls of
  \<open>time.sleep(0.4)\<close>. The cache folder and the output file are kept apart, as the Mass
  Cache and the Output Writer are.
\<close>

record world =
  cache :: "(string, pickle) dict"
  files :: "(string, file_content) dict"
  stdout :: "message list"
  requests :: "string list"
  sleeps :: nat

text \<open>The exceptions that leave \<open>get_protein_mass_mapping\<close>.\<close>

datatype error = CacheCorrupt string | FileNotFoundError string | KeyError string

section \<open>The helpers of \<open>helper_general\<close>\<close>

text \<open>
  Modelled from the spec: \<open>standardize_folder\<close> of \<open>helper_general\<close>, which is not among
  the sources. "Folder path is normalized (trailing separator ensured) before use."
\<close>

definition standardize_folder :: "string \<Rightarrow> string" where
  "standardize_folder folder =
     (if folder \<noteq> [] \<and> last folder = CHR ''/'' then folder else folder @ ''/'')"

text \<open>
  Modelled from the spec: \<open>get_files\<close> of \<open>helper_general\<close> on the cache folder, the
  Mass Cache's \<open>exists\<close>: "true iff a persisted entry for that accession is present".
\<close>

definition get_files :: "world \<Rightarrow> string list" where
  "get_files w = dict_keys (cache w)"

text \<open>
  Modelled from the spec: \<open>pickle_load\<close> of \<open>helper_general\<close>, the Mass Cache's \<open>read\<close>:
  "returns the persisted numeric value; fails with CacheCorrupt if the stored record
  cannot be deserialized". Opening a file that is not there raises as well.
\<close>

definition pickle_load :: "world \<Rightarrow> string \<Rightarrow> error + mass" where
  "pickle_load w name =
     (case map_of (cache w) name of
        None \<Rightarrow> Inl (FileNotFoundError name)
      | Some Corrupt \<Rightarrow> Inl (CacheCorrupt name)
      | Some (Pickled m) \<Rightarrow> Inr m)"

text \<open>
  Modelled from the spec: \<open>pickle_write\<close> of \<open>helper_general\<close>, the Mass Cache's \<open>write\<close>:
  "persists the value; overwrites are permitted".
\<close>

definition pickle_write :: "string \<Rightarrow> mass \<Rightarrow> world \<Rightarrow> world" where
  "pickle_write name m w = w\<lparr>cache := AList.update name (Pickled m) (cache w)\<rparr>"

text \<open>
  Modelled from the spec: \<open>json_write\<close> of \<open>helper_general\<close>, the Output Writer:
  "Overwrites any pre-existing file at that path unconditionally."
\<close>

definition json_write :: "string \<Rightarrow> (string, mass) dict \<Rightarrow> world \<Rightarrow> world" where
  "json_write path d w = w\<lparr>files := AList.update path (JsonFile d) (files w)\<rparr>"

text \<open>
  \<open>ensure_folder_existence\<close> creates the cache folder when it is missing and changes nothing
  else; a missing folder and an empty one are the same empty \<open>cache\<close> here.
\<close>

definition print :: "message \<Rightarrow> world \<Rightarrow> world" where
  "print msg w = w\<lparr>stdout := stdout w @ [msg]\<rparr>"

section \<open>\<open>get_protein_mass_mapping\<close>\<close>

subsection \<open>Lines 62 to 71: the UniProt ID to protein ID mapping\<close>

definition group_gene ::
  "(string, string list) dict \<Rightarrow> gene \<Rightarrow> (string, string list) dict" where
  "group_gene mapping g =
     (case map_of (annotation g) ''uniprot'' of
        None \<Rightarrow> mapping
      | Some uniprot_id \<Rightarrow>
          (case map_of mapping uniprot_id of
             Some protein_ids \<Rightarrow> AList.update uniprot_id (protein_ids @ [gene_id g]) mapping
           | None \<Rightarrow> AList.update uniprot_id [gene_id g] mapping))"

fun group_genes ::
  "gene list \<Rightarrow> (string, string list) dict \<Rightarrow> (string, string list) dict" where
  "group_genes [] mapping = mapping"
| "group_genes (g # gs) mapping = group_genes gs (group_gene mapping g)"

definition uniprot_id_protein_id_mapping :: "gene list \<Rightarrow> (string, string list) dict" where
  "uniprot_id_protein_id_mapping gs = group_genes gs []"

subsection \<open>Lines 73 to 119: the UniProt ID to mass mapping\<close>

definition uniprot_query_url :: "string \<Rightarrow> string" where
  "uniprot_query_url uniprot_id = ''https://www.ebi.ac.uk/proteins/api/proteins/'' @ uniprot_id"

text \<open>
  The \<open>try\<close> block of lines 100 to 112: the mass it stores, \<open>None\<close> when an exception
  was caught.
\<close>

definition uniprot_mass :: "remote \<Rightarrow> string \<Rightarrow> mass option" where
  "uniprot_mass r uniprot_id =
     (case requests_get r (uniprot_query_url uniprot_id) of
        RequestException \<Rightarrow> None
      | Response ok body \<Rightarrow> if \<not> ok then None else float_mass r body)"

text \<open>Lines 96 to 119: the body of the loop for an identifier that is not in \<open>cache_files\<close>.\<close>

definition search_uniprot ::
  "remote \<Rightarrow> string \<Rightarrow> (string, mass) dict \<Rightarrow> world \<Rightarrow> (string, mass) dict \<times> world" where
  "search_uniprot r uniprot_id masses w =
     (let w1 = print (UniProtSearchFor uniprot_id) w;
          w2 = w1\<lparr>requests := requests w1 @ [uniprot_query_url uniprot_id]\<rparr>;
          masses' = (case uniprot_mass r uniprot_id of
                       Some m \<Rightarrow> AList.update uniprot_id m masses
                     | None \<Rightarrow> masses);
          w3 = (case map_of masses' uniprot_id of
                  Some m \<Rightarrow> pickle_write uniprot_id m w2
                | None \<Rightarrow> w2)
      in (masses', w3\<lparr>sleeps := Suc (sleeps w3)\<rparr>))"

fun resolve ::
  "remote \<Rightarrow> string list \<Rightarrow> string list \<Rightarrow> (string, mass) dict \<Rightarrow> world
     \<Rightarrow> (error + (string, mass) dict) \<times> world" where
  "resolve r cache_files [] masses w = (Inr masses, w)"
| "resolve r cache_files (uniprot_id # uniprot_ids) masses w =
     (if uniprot_id \<in> set cache_files then
        (case pickle_load w uniprot_id of
           Inl e \<Rightarrow> (Inl e, w)
         | Inr m \<Rightarrow>
             resolve r cache_files uniprot_ids (AList.update uniprot_id m masses)
               (print (CachedMass uniprot_id m) w))
      else
        (case search_uniprot r uniprot_id masses w of
           (masses', w') \<Rightarrow> resolve r cache_files uniprot_ids masses' w'))"

definition uniprot_id_protein_mass_mapping ::
  "remote \<Rightarrow> gene list \<Rightarrow> world \<Rightarrow> (error + (string, mass) dict) \<times> world" where
  "uniprot_id_protein_mass_mapping r gs w =
     resolve r (get_files w) (dict_keys (uniprot_id_protein_id_mapping gs)) []
       (print StartingSearch w)"

subsection \<open>Lines 121 to 130: the protein ID to mass mapping\<close>

fun assign_mass ::
  "(string, mass) dict \<Rightarrow> string \<Rightarrow> string list \<Rightarrow> (string, mass) dict
     \<Rightarrow> error + (string, mass) dict" where
  "assign_mass masses uniprot_id [] out = Inr out"
| "assign_mass masses uniprot_id (protein_id # protein_ids) out =
     (case map_of masses uniprot_id of
        None \<Rightarrow> Inl (KeyError uniprot_id)
      | Some m \<Rightarrow> assign_mass masses uniprot_id protein_ids (AList.update protein_id m out))"

fun assemble ::
  "(string, string list) dict \<Rightarrow> (string, mass) dict \<Rightarrow> string list
     \<Rightarrow> (string, mass) dict \<Rightarrow> message list
     \<Rightarrow> (error + (string, mass) dict) \<times> message list" where
  "assemble mapping masses [] out msgs = (Inr out, msgs)"
| "assemble mapping masses (uniprot_id # uniprot_ids) out msgs =
     (case map_of mapping uniprot_id of
        None \<Rightarrow> assemble mapping masses uniprot_ids out (msgs @ [NoMassFound uniprot_id])
      | Some protein_ids \<Rightarrow>
          (case assign_mass masses uniprot_id protein_ids out of
             Inl e \<Rightarrow> (Inl e, msgs)
           | Inr out' \<Rightarrow> assemble mapping masses uniprot_ids out' msgs))"

definition protein_id_mass_mapping ::
  "(string, string list) dict \<Rightarrow> (string, mass) dict
     \<Rightarrow> (error + (string, mass) dict) \<times> message list" where
  "protein_id_mass_mapping mapping masses = assemble mapping masses (dict_keys masses) [] []"

subsection \<open>The whole function\<close>

definition output_path :: "string \<Rightarrow> string \<Rightarrow> string" where
  "output_path project_folder project_name =
     (standardize_folder project_folder @ project_name) @ ''_protein_id_mass_mapping.json''"

text \<open>
  The Python function returns nothing; the model returns the value of its local
  \<open>protein_id_mass_mapping\<close>, which line 134 writes, or the exception that ended the run.
\<close>

definition get_protein_mass_mapping ::
  "remote \<Rightarrow> gene list \<Rightarrow> string \<Rightarrow> string \<Rightarrow> world
     \<Rightarrow> (error + (string, mass) dict) \<times> world" where
  "get_protein_mass_mapping r gs project_folder project_name w =
     (case uniprot_id_protein_mass_mapping r gs w of
        (Inl e, w1) \<Rightarrow> (Inl e, w1)
      | (Inr masses, w1) \<Rightarrow>
          (case protein_id_mass_mapping (uniprot_id_protein_id_mapping gs) masses of
             (Inl e, msgs) \<Rightarrow> (Inl e, w1\<lparr>stdout := stdout w1 @ msgs\<rparr>)
           | (Inr out, msgs) \<Rightarrow>
               (Inr out,
                json_write (output_path project_folder project_name) out
                  (print MappingDone (w1\<lparr>stdout := stdout w1 @ msgs\<rparr>)))))"

section \<open>Notions used in the proofs\<close>

text \<open>
  The local identifiers that the genes attach to one accession, in the order of
  \<open>model.genes\<close>.
\<close>

definition ids_of :: "gene list \<Rightarrow> string \<Rightarrow> string list" where
  "ids_of gs a = map gene_id (filter (\<lambda>g. map_of (annotation g) ''uniprot'' = Some a) gs)"

text \<open>The mass mapping after the \<open>try\<close> block of one identifier.\<close>

definition search_masses :: "remote \<Rightarrow> string \<Rightarrow> (string, mass) dict \<Rightarrow> (string, mass) dict" where
  "search_masses r u masses =
     (case uniprot_mass r u of Some m \<Rightarrow> AList.update u m masses | None \<Rightarrow> masses)"

text \<open>
  Where the mass of an identifier comes from: its cache file when the folder had one at
  the start, UniProt otherwise.
\<close>

definition mass_source :: "remote \<Rightarrow> (string, pickle) dict \<Rightarrow> string \<Rightarrow> mass option" where
  "mass_source r c0 u =
     (case map_of c0 u of
        Some (Pickled m) \<Rightarrow> Some m
      | Some Corrupt \<Rightarrow> None
      | None \<Rightarrow> uniprot_mass r u)"

text \<open>One round of the resolver loop on the mass mapping, and on the cache folder.\<close>

definition step_masses ::
  "remote \<Rightarrow> (string, pickle) dict \<Rightarrow> (string, mass) dict \<Rightarrow> string \<Rightarrow> (string, mass) dict" where
  "step_masses r c0 masses u =
     (case mass_source r c0 u of Some m \<Rightarrow> AList.update u m masses | None \<Rightarrow> masses)"

definition step_cache ::
  "remote \<Rightarrow> (string, pickle) dict \<Rightarrow> (string, pickle) dict \<Rightarrow> string \<Rightarrow> (string, pickle) dict" where
  "step_cache r c0 c u =
     (case map_of c0 u of
        Some p \<Rightarrow> c
      | None \<Rightarrow> (case uniprot_mass r u of Some m \<Rightarrow> AList.update u (Pickled m) c | None \<Rightarrow> c))"

text \<open>The inner loop of the assembler, and one round of its outer loop.\<close>

definition assign_all :: "mass \<Rightarrow> (string, mass) dict \<Rightarrow> string list \<Rightarrow> (string, mass) dict" where
  "assign_all m out protein_ids = foldl (\<lambda>d p. AList.update p m d) out protein_ids"

definition step_out ::
  "(string, string list) dict \<Rightarrow> (string, mass) dict \<Rightarrow> (string, mass) dict \<Rightarrow> string
     \<Rightarrow> (string, mass) dict" where
  "step_out mapping masses out a =
     (case map_of mapping a of
        None \<Rightarrow> out
      | Some ids \<Rightarrow> (case map_of masses a of None \<Rightarrow> out | Some m \<Rightarrow> assign_all m out ids))"

text \<open>The three loops as folds over their lists.\<close>

definition resolved_masses :: "remote \<Rightarrow> gene list \<Rightarrow> (string, pickle) dict \<Rightarrow> (string, mass) dict" where
  "resolved_masses r gs c0 =
     foldl (step_masses r c0) [] (dict_keys (uniprot_id_protein_id_mapping gs))"

definition written_cache :: "remote \<Rightarrow> gene list \<Rightarrow> (string, pickle) dict \<Rightarrow> (string, pickle) dict" where
  "written_cache r gs c0 =
     foldl (step_cache r c0) c0 (dict_keys (uniprot_id_protein_id_mapping gs))"

definition assembled :: "(string, string list) dict \<Rightarrow> (string, mass) dict \<Rightarrow> (string, mass) dict" where
  "assembled mapping masses = foldl (step_out mapping masses) [] (dict_keys masses)"

section \<open>Inputs for the examples\<close>

definition gene_with :: "string \<Rightarrow> string \<Rightarrow> gene" where
  "gene_with i a = \<lparr>gene_id = i, annotation = [(''uniprot'', a)]\<rparr>"

definition gene_without :: "string \<Rightarrow> gene" where
  "gene_without i = \<lparr>gene_id = i, annotation = []\<rparr>"

text \<open>
  A remote service that knows the masses of a table: the request for an accession of the
  table is answered with a body that holds its mass, any other request is refused.
\<close>

definition fake_remote :: "(string, mass) dict \<Rightarrow> remote" where
  "fake_remote table =
     \<lparr>requests_get = (\<lambda>url. if url \<in> set (map (uniprot_query_url \<circ> fst) table)
                              then Response True url else Response False []),
      float_mass = (\<lambda>body. map_of (map (\<lambda>(a, m). (uniprot_query_url a, m)) table) body)\<rparr>"

definition fresh_world :: "(string, pickle) dict \<Rightarrow> world" where
  "fresh_world c = \<lparr>cache = c, files = [], stdout = [], requests = [], sleeps = 0\<rparr>"

section \<open>Lemmas\<close>

text \<open>The equations that evaluate a run on a concrete input.\<close>

lemmas example_defs =
  gene_with_def gene_without_def fake_remote_def fresh_world_def
  get_protein_mass_mapping_def uniprot_id_protein_mass_mapping_def
  uniprot_id_protein_id_mapping_def protein_id_mass_mapping_def group_gene_def
  get_files_def search_uniprot_def print_def uniprot_mass_def uniprot_query_url_def
  pickle_write_def pickle_load_def json_write_def output_path_def standardize_folder_def
  Let_def

subsection \<open>The grouping loop\<close>

lemma ids_of_Nil [simp]: "ids_of [] a = []"
  by (simp add: ids_of_def)

lemma ids_of_Cons:
  "ids_of (g # gs) a =
     (if map_of (annotation g) ''uniprot'' = Some a then gene_id g # ids_of gs a else ids_of gs a)"
  by (simp add: ids_of_def)

lemma map_of_group_gene:
  "map_of (group_gene mapping g) a =
     (if map_of (annotation g) ''uniprot'' = Some a
      then Some ((case map_of mapping a of None \<Rightarrow> [] | Some ids \<Rightarrow> ids) @ [gene_id g])
      else map_of mapping a)"
  by (auto simp: group_gene_def update_conv' split: option.splits)

lemma map_of_group_genes:
  "map_of (group_genes gs mapping) a =
     (case map_of mapping a of
        None \<Rightarrow> if ids_of gs a = [] then None else Some (ids_of gs a)
      | Some ids \<Rightarrow> Some (ids @ ids_of gs a))"
proof (induction gs arbitrary: mapping)
  case Nil
  show ?case by (simp split: option.splits)
next
  case (Cons g gs)
  show ?case
    by (simp add: Cons.IH map_of_group_gene ids_of_Cons split: option.splits)
qed

lemma map_of_uniprot_id_protein_id_mapping:
  "map_of (uniprot_id_protein_id_mapping gs) a =
     (if ids_of gs a = [] then None else Some (ids_of gs a))"
  by (simp add: uniprot_id_protein_id_mapping_def map_of_group_genes)

lemma distinct_group_gene:
  "distinct (dict_keys mapping) \<Longrightarrow> distinct (dict_keys (group_gene mapping g))"
  by (simp add: group_gene_def distinct_update split: option.splits)

lemma distinct_group_genes:
  "distinct (dict_keys mapping) \<Longrightarrow> distinct (dict_keys (group_genes gs mapping))"
  by (induction gs arbitrary: mapping) (simp_all add: distinct_group_gene)

lemma distinct_uniprot_ids: "distinct (dict_keys (uniprot_id_protein_id_mapping gs))"
  by (simp add: uniprot_id_protein_id_mapping_def distinct_group_genes)

lemma in_keys_iff: "a \<in> set (dict_keys d) \<longleftrightarrow> map_of d a \<noteq> None"
  by (simp add: map_of_eq_None_iff)

lemma in_ids_of_iff:
  "p \<in> set (ids_of gs a) \<longleftrightarrow>
     (\<exists>g\<in>set gs. gene_id g = p \<and> map_of (annotation g) ''uniprot'' = Some a)"
  by (auto simp: ids_of_def)

lemma ids_of_unique:
  assumes "distinct (map gene_id gs)" "p \<in> set (ids_of gs a)" "p \<in> set (ids_of gs b)"
  shows "a = b"
proof -
  from assms(2) obtain g where g: "g \<in> set gs" "gene_id g = p"
    "map_of (annotation g) ''uniprot'' = Some a" by (auto simp: in_ids_of_iff)
  from assms(3) obtain h where h: "h \<in> set gs" "gene_id h = p"
    "map_of (annotation h) ''uniprot'' = Some b" by (auto simp: in_ids_of_iff)
  from assms(1) g(1,2) h(1,2) have "g = h"
    by (metis distinct_map inj_onD)
  with g(3) h(3) show ?thesis by simp
qed

subsection \<open>The resolver loop\<close>

lemma cache_print [simp]: "cache (print msg w) = cache w"
  and requests_print [simp]: "requests (print msg w) = requests w"
  and sleeps_print [simp]: "sleeps (print msg w) = sleeps w"
  and files_print [simp]: "files (print msg w) = files w"
  and stdout_print [simp]: "stdout (print msg w) = stdout w @ [msg]"
  by (simp_all add: print_def)

lemma pickle_load_print [simp]: "pickle_load (print msg w) name = pickle_load w name"
  by (simp add: pickle_load_def)

lemma fst_search_uniprot: "fst (search_uniprot r u masses w) = search_masses r u masses"
  by (simp add: search_uniprot_def search_masses_def Let_def)

lemma cache_search_uniprot:
  "cache (snd (search_uniprot r u masses w)) =
     (case map_of (search_masses r u masses) u of
        Some m \<Rightarrow> AList.update u (Pickled m) (cache w)
      | None \<Rightarrow> cache w)"
  by (simp add: search_uniprot_def search_masses_def Let_def pickle_write_def
      split: option.splits)

lemma requests_search_uniprot:
  "requests (snd (search_uniprot r u masses w)) = requests w @ [uniprot_query_url u]"
  by (simp add: search_uniprot_def Let_def pickle_write_def split: option.splits)

lemma sleeps_search_uniprot:
  "sleeps (snd (search_uniprot r u masses w)) = Suc (sleeps w)"
  by (simp add: search_uniprot_def Let_def pickle_write_def split: option.splits)

lemma files_search_uniprot:
  "files (snd (search_uniprot r u masses w)) = files w"
  by (simp add: search_uniprot_def Let_def pickle_write_def split: option.splits)

lemma stdout_search_uniprot:
  "stdout (snd (search_uniprot r u masses w)) = stdout w @ [UniProtSearchFor u]"
  by (simp add: search_uniprot_def Let_def pickle_write_def split: option.splits)

lemma resolve_Cons_hit:
  "u \<in> set cf \<Longrightarrow> pickle_load w u = Inr m \<Longrightarrow>
     resolve r cf (u # us) masses w =
       resolve r cf us (AList.update u m masses) (print (CachedMass u m) w)"
  by simp

lemma resolve_Cons_fail:
  "u \<in> set cf \<Longrightarrow> pickle_load w u = Inl e \<Longrightarrow> resolve r cf (u # us) masses w = (Inl e, w)"
  by simp

lemma resolve_Cons_miss:
  "u \<notin> set cf \<Longrightarrow>
     resolve r cf (u # us) masses w =
       resolve r cf us (search_masses r u masses) (snd (search_uniprot r u masses w))"
  using fst_search_uniprot [of r u masses w]
  by (cases "search_uniprot r u masses w") simp

text \<open>An identifier of \<open>cache_files\<close> costs no request and no sleep.\<close>

lemma resolve_all_cached:
  "set us \<subseteq> set cf \<Longrightarrow>
     requests (snd (resolve r cf us masses w)) = requests w \<and>
     sleeps (snd (resolve r cf us masses w)) = sleeps w"
proof (induction us arbitrary: masses w)
  case Nil
  show ?case by simp
next
  case (Cons u us)
  then have u: "u \<in> set cf" and us: "set us \<subseteq> set cf" by simp_all
  show ?case
  proof (cases "pickle_load w u")
    case (Inl e)
    with u show ?thesis by (simp add: resolve_Cons_fail del: resolve.simps)
  next
    case (Inr m)
    with u Cons.IH [OF us] show ?thesis by (simp add: resolve_Cons_hit del: resolve.simps)
  qed
qed

lemma resolve_files: "files (snd (resolve r cf us masses w)) = files w"
proof (induction us arbitrary: masses w)
  case Nil
  show ?case by simp
next
  case (Cons u us)
  show ?case
  proof (cases "u \<in> set cf")
    case True
    then show ?thesis
      by (cases "pickle_load w u") (simp_all add: Cons.IH del: resolve.simps add: resolve_Cons_hit resolve_Cons_fail)
  next
    case False
    then show ?thesis
      by (simp add: resolve_Cons_miss Cons.IH files_search_uniprot del: resolve.simps)
  qed
qed

text \<open>A file listed in \<open>cache_files\<close> is never written.\<close>

lemma resolve_cache_kept:
  "a \<in> set cf \<Longrightarrow> map_of (cache (snd (resolve r cf us masses w))) a = map_of (cache w) a"
proof (induction us arbitrary: masses w)
  case Nil
  show ?case by simp
next
  case (Cons u us)
  show ?case
  proof (cases "u \<in> set cf")
    case True
    then show ?thesis
      by (cases "pickle_load w u")
        (simp_all add: Cons.IH [OF Cons.prems] resolve_Cons_hit resolve_Cons_fail del: resolve.simps)
  next
    case False
    with Cons.prems have "u \<noteq> a" by auto
    with False show ?thesis
      by (simp add: resolve_Cons_miss Cons.IH [OF Cons.prems] cache_search_uniprot update_conv'
          del: resolve.simps split: option.splits)
  qed
qed

lemma resolve_keys:
  "resolve r cf us masses w = (Inr masses', w') \<Longrightarrow>
     set (dict_keys masses') \<subseteq> set (dict_keys masses) \<union> set us"
proof (induction us arbitrary: masses w)
  case Nil
  then show ?case by auto
next
  case (Cons u us)
  show ?case
  proof (cases "u \<in> set cf")
    case True
    show ?thesis
    proof (cases "pickle_load w u")
      case (Inl e)
      with True Cons.prems show ?thesis by simp
    next
      case (Inr m)
      with True Cons.prems
      have "resolve r cf us (AList.update u m masses) (print (CachedMass u m) w) = (Inr masses', w')"
        by simp
      from Cons.IH [OF this] show ?thesis
        by (auto simp: dom_update)
    qed
  next
    case False
    with Cons.prems
    have "resolve r cf us (search_masses r u masses) (snd (search_uniprot r u masses w)) = (Inr masses', w')"
      by (simp add: resolve_Cons_miss del: resolve.simps)
    from Cons.IH [OF this] show ?thesis
      by (auto simp: search_masses_def dom_update split: option.splits)
  qed
qed

lemma map_of_search_masses_same:
  "u \<notin> set (dict_keys masses) \<Longrightarrow> map_of (search_masses r u masses) u = uniprot_mass r u"
  by (auto simp: search_masses_def update_conv' map_of_eq_None_iff split: option.splits)

lemma keys_search_masses:
  "set (dict_keys (search_masses r u masses)) \<subseteq> insert u (set (dict_keys masses))"
  by (auto simp: search_masses_def dom_update split: option.splits)

lemma resolve_corrupt:
  assumes "\<forall>a\<in>set (dict_keys c0). map_of (cache w) a = map_of c0 a"
    and "a \<in> set us" and "map_of c0 a = Some Corrupt"
  shows "\<exists>b\<in>set us. fst (resolve r (dict_keys c0) us masses w) = Inl (CacheCorrupt b) \<and>
           map_of c0 b = Some Corrupt"
  using assms
proof (induction us arbitrary: masses w)
  case Nil
  then show ?case by simp
next
  case (Cons u us)
  note inv = Cons.prems(1)
  show ?case
  proof (cases "u \<in> set (dict_keys c0)")
    case True
    with inv have load: "map_of (cache w) u = map_of c0 u" by blast
    from True in_keys_iff [of u c0] obtain p where p: "map_of c0 u = Some p"
      by blast
    show ?thesis
    proof (cases p)
      case (Pickled m)
      with p load have l: "pickle_load w u = Inr m" by (simp add: pickle_load_def)
      from Pickled p Cons.prems(2,3) have "a \<in> set us" by auto
      from Cons.IH [of "print (CachedMass u m) w" "AList.update u m masses", OF _ this Cons.prems(3)] inv
      obtain b where "b \<in> set us"
        "fst (resolve r (dict_keys c0) us (AList.update u m masses) (print (CachedMass u m) w)) = Inl (CacheCorrupt b)"
        "map_of c0 b = Some Corrupt" by auto
      with True l show ?thesis by (auto simp: resolve_Cons_hit simp del: resolve.simps)
    next
      case Corrupt
      with p load have "pickle_load w u = Inl (CacheCorrupt u)" by (simp add: pickle_load_def)
      with True Corrupt p show ?thesis by (auto simp: resolve_Cons_fail simp del: resolve.simps)
    qed
  next
    case False
    with Cons.prems(2,3) in_keys_iff [of u c0] have a: "a \<in> set us" by auto
    let ?w = "snd (search_uniprot r u masses w)"
    have "\<forall>a\<in>set (dict_keys c0). map_of (cache ?w) a = map_of c0 a"
      using inv False by (auto simp: cache_search_uniprot update_conv' split: option.splits)
    from Cons.IH [OF this a Cons.prems(3), of "search_masses r u masses"] False
    show ?thesis by (auto simp: resolve_Cons_miss simp del: resolve.simps)
  qed
qed

lemma resolve_ok:
  assumes "\<forall>a\<in>set (dict_keys c0). map_of (cache w) a = map_of c0 a"
    and "distinct us" and "set us \<inter> set (dict_keys masses) = {}"
    and "\<forall>u\<in>set us. map_of c0 u \<noteq> Some Corrupt"
  shows "fst (resolve r (dict_keys c0) us masses w) = Inr (foldl (step_masses r c0) masses us) \<and>
         cache (snd (resolve r (dict_keys c0) us masses w)) = foldl (step_cache r c0) (cache w) us \<and>
         requests (snd (resolve r (dict_keys c0) us masses w)) =
           requests w @ map uniprot_query_url (filter (\<lambda>u. u \<notin> set (dict_keys c0)) us)"
  using assms
proof (induction us arbitrary: masses w)
  case Nil
  show ?case by simp
next
  case (Cons u us)
  note inv = Cons.prems(1)
  from Cons.prems have dist: "distinct us" and u_us: "u \<notin> set us"
    and u_ms: "u \<notin> set (dict_keys masses)" and disj: "set us \<inter> set (dict_keys masses) = {}"
    and ok: "\<forall>u\<in>set us. map_of c0 u \<noteq> Some Corrupt" and u_ok: "map_of c0 u \<noteq> Some Corrupt"
    by auto
  show ?case
  proof (cases "u \<in> set (dict_keys c0)")
    case True
    with inv have load: "map_of (cache w) u = map_of c0 u" by blast
    from True in_keys_iff [of u c0] obtain p where "map_of c0 u = Some p"
      by blast
    with u_ok obtain m where m: "map_of c0 u = Some (Pickled m)"
      by (cases p) auto
    with load have l: "pickle_load w u = Inr m" by (simp add: pickle_load_def)
    have sm: "step_masses r c0 masses u = AList.update u m masses"
      by (simp add: step_masses_def mass_source_def m)
    have sc: "step_cache r c0 (cache w) u = cache w"
      by (simp add: step_cache_def m)
    have disj': "set us \<inter> set (dict_keys (AList.update u m masses)) = {}"
      using disj u_us by (auto simp: dom_update)
    from Cons.IH [of "print (CachedMass u m) w" "AList.update u m masses", OF _ dist disj' ok] inv
    show ?thesis using True l by (simp add: resolve_Cons_hit sm sc del: resolve.simps)
  next
    case False
    with in_keys_iff [of u c0] have none: "map_of c0 u = None" by blast
    let ?w = "snd (search_uniprot r u masses w)"
    have inv': "\<forall>a\<in>set (dict_keys c0). map_of (cache ?w) a = map_of c0 a"
      using inv False by (auto simp: cache_search_uniprot update_conv' split: option.splits)
    have sm: "step_masses r c0 masses u = search_masses r u masses"
      by (simp add: step_masses_def mass_source_def none search_masses_def)
    have sc: "step_cache r c0 (cache w) u = cache ?w"
      by (simp add: step_cache_def none cache_search_uniprot map_of_search_masses_same [OF u_ms])
    have disj': "set us \<inter> set (dict_keys (search_masses r u masses)) = {}"
      using disj u_us keys_search_masses [of r u masses] by blast
    from Cons.IH [OF inv' dist disj' ok]
    show ?thesis using False
      by (simp add: resolve_Cons_miss sm sc requests_search_uniprot del: resolve.simps)
  qed
qed

lemma map_of_foldl_step_masses:
  "map_of (foldl (step_masses r c0) masses us) a =
     (if a \<in> set us
      then (case mass_source r c0 a of Some m \<Rightarrow> Some m | None \<Rightarrow> map_of masses a)
      else map_of masses a)"
proof (induction us arbitrary: masses)
  case Nil
  show ?case by simp
next
  case (Cons u us)
  have "map_of (step_masses r c0 masses u) a =
          (if a = u then (case mass_source r c0 a of Some m \<Rightarrow> Some m | None \<Rightarrow> map_of masses a)
           else map_of masses a)"
    by (simp add: step_masses_def update_conv' split: option.splits)
  with Cons.IH [of "step_masses r c0 masses u"] show ?case
    by (auto split: option.splits)
qed

subsection \<open>The assembler loops\<close>

lemma assign_mass_Some:
  "map_of masses a = Some m \<Longrightarrow> assign_mass masses a ids out = Inr (assign_all m out ids)"
  by (induction ids arbitrary: out) (simp_all add: assign_all_def)

lemma map_of_assign_all:
  "map_of (assign_all m out ids) p = (if p \<in> set ids then Some m else map_of out p)"
  unfolding assign_all_def
  by (induction ids arbitrary: out) (simp_all add: update_conv')

lemma assemble_ok:
  assumes "\<forall>a\<in>set us. map_of masses a \<noteq> None" and "\<forall>a\<in>set us. map_of mapping a \<noteq> None"
  shows "assemble mapping masses us out msgs = (Inr (foldl (step_out mapping masses) out us), msgs)"
  using assms
proof (induction us arbitrary: out)
  case Nil
  show ?case by simp
next
  case (Cons u us)
  from Cons.prems obtain m ids where m: "map_of masses u = Some m"
    and ids: "map_of mapping u = Some ids" by auto
  have "step_out mapping masses out u = assign_all m out ids"
    by (simp add: step_out_def m ids)
  with Cons.IH [of "assign_all m out ids"] Cons.prems show ?case
    by (simp add: ids assign_mass_Some [OF m])
qed

lemma map_of_step_out:
  "map_of (step_out mapping masses out a) p =
     (case map_of mapping a of
        None \<Rightarrow> map_of out p
      | Some ids \<Rightarrow>
          (case map_of masses a of
             None \<Rightarrow> map_of out p
           | Some m \<Rightarrow> if p \<in> set ids then Some m else map_of out p))"
  by (simp add: step_out_def map_of_assign_all split: option.splits)

lemma foldl_step_out_absent:
  assumes "map_of out p = None"
    and "\<forall>a\<in>set us. \<forall>ids. map_of mapping a = Some ids \<longrightarrow> map_of masses a \<noteq> None \<longrightarrow> p \<notin> set ids"
  shows "map_of (foldl (step_out mapping masses) out us) p = None"
  using assms
proof (induction us arbitrary: out)
  case Nil
  then show ?case by simp
next
  case (Cons u us)
  from Cons.prems have "map_of (step_out mapping masses out u) p = None"
    by (auto simp: map_of_step_out split: option.splits)
  with Cons.IH [of "step_out mapping masses out u"] Cons.prems show ?case by simp
qed

lemma foldl_step_out_present:
  assumes "map_of out p \<noteq> None \<or>
     (\<exists>a\<in>set us. \<exists>ids. map_of mapping a = Some ids \<and> map_of masses a \<noteq> None \<and> p \<in> set ids)"
  shows "map_of (foldl (step_out mapping masses) out us) p \<noteq> None"
  using assms
proof (induction us arbitrary: out)
  case Nil
  then show ?case by simp
next
  case (Cons u us)
  from Cons.prems have "map_of (step_out mapping masses out u) p \<noteq> None \<or>
     (\<exists>a\<in>set us. \<exists>ids. map_of mapping a = Some ids \<and> map_of masses a \<noteq> None \<and> p \<in> set ids)"
    by (auto simp: map_of_step_out split: option.splits)
  from Cons.IH [OF this] show ?case by simp
qed

lemma foldl_step_out_value:
  assumes "map_of out p = Some m \<or> a \<in> set us"
    and "map_of mapping a = Some ids" and "p \<in> set ids" and "map_of masses a = Some m"
    and "\<forall>b\<in>set us. \<forall>ids'. map_of mapping b = Some ids' \<longrightarrow> p \<in> set ids' \<longrightarrow> b = a"
  shows "map_of (foldl (step_out mapping masses) out us) p = Some m"
  using assms
proof (induction us arbitrary: out)
  case Nil
  then show ?case by simp
next
  case (Cons u us)
  have "map_of (step_out mapping masses out u) p = Some m \<or> a \<in> set us"
  proof (cases "u = a")
    case True
    with Cons.prems(2,3,4) show ?thesis by (simp add: map_of_step_out)
  next
    case False
    with Cons.prems(5) have "\<forall>ids'. map_of mapping u = Some ids' \<longrightarrow> p \<notin> set ids'" by auto
    with Cons.prems(1) False show ?thesis
      by (auto simp: map_of_step_out split: option.splits)
  qed
  from Cons.IH [OF this Cons.prems(2,3,4)] Cons.prems(5) show ?case by simp
qed

subsection \<open>The whole run\<close>

lemma resolver_ok:
  assumes "\<forall>u\<in>set (dict_keys (uniprot_id_protein_id_mapping gs)). map_of (cache w) u \<noteq> Some Corrupt"
  shows "fst (uniprot_id_protein_mass_mapping r gs w) = Inr (resolved_masses r gs (cache w))"
    and "cache (snd (uniprot_id_protein_mass_mapping r gs w)) = written_cache r gs (cache w)"
    and "requests (snd (uniprot_id_protein_mass_mapping r gs w)) =
           requests w @ map uniprot_query_url
             (filter (\<lambda>u. u \<notin> set (dict_keys (cache w))) (dict_keys (uniprot_id_protein_id_mapping gs)))"
proof -
  have inv: "\<forall>a\<in>set (dict_keys (cache w)). map_of (cache (print StartingSearch w)) a = map_of (cache w) a"
    by simp
  have disj: "set (dict_keys (uniprot_id_protein_id_mapping gs)) \<inter> set (dict_keys ([] :: (string, mass) dict)) = {}"
    by simp
  note ok = resolve_ok [OF inv distinct_uniprot_ids disj assms, of r]
  from ok show "fst (uniprot_id_protein_mass_mapping r gs w) = Inr (resolved_masses r gs (cache w))"
    by (simp add: uniprot_id_protein_mass_mapping_def get_files_def resolved_masses_def)
  from ok show "cache (snd (uniprot_id_protein_mass_mapping r gs w)) = written_cache r gs (cache w)"
    by (simp add: uniprot_id_protein_mass_mapping_def get_files_def written_cache_def)
  from ok show "requests (snd (uniprot_id_protein_mass_mapping r gs w)) =
           requests w @ map uniprot_query_url
             (filter (\<lambda>u. u \<notin> set (dict_keys (cache w))) (dict_keys (uniprot_id_protein_id_mapping gs)))"
    by (simp add: uniprot_id_protein_mass_mapping_def get_files_def)
qed

lemma resolver_corrupt:
  assumes "a \<in> set (dict_keys (uniprot_id_protein_id_mapping gs))" and "map_of (cache w) a = Some Corrupt"
  shows "\<exists>b\<in>set (dict_keys (uniprot_id_protein_id_mapping gs)).
           fst (uniprot_id_protein_mass_mapping r gs w) = Inl (CacheCorrupt b) \<and>
           map_of (cache w) b = Some Corrupt"
proof -
  have inv: "\<forall>a\<in>set (dict_keys (cache w)). map_of (cache (print StartingSearch w)) a = map_of (cache w) a"
    by simp
  from resolve_corrupt [OF inv assms, of r "[]"] show ?thesis
    by (simp add: uniprot_id_protein_mass_mapping_def get_files_def)
qed

lemma resolver_Inr:
  assumes "fst (uniprot_id_protein_mass_mapping r gs w) = Inr masses"
  shows "\<forall>u\<in>set (dict_keys (uniprot_id_protein_id_mapping gs)). map_of (cache w) u \<noteq> Some Corrupt"
    and "masses = resolved_masses r gs (cache w)"
proof -
  show ok: "\<forall>u\<in>set (dict_keys (uniprot_id_protein_id_mapping gs)). map_of (cache w) u \<noteq> Some Corrupt"
  proof (intro ballI notI)
    fix u assume "u \<in> set (dict_keys (uniprot_id_protein_id_mapping gs))" "map_of (cache w) u = Some Corrupt"
    from resolver_corrupt [OF this, of r] assms show False by auto
  qed
  from resolver_ok(1) [OF ok, of r] assms show "masses = resolved_masses r gs (cache w)" by simp
qed

lemma map_of_resolved_masses:
  "map_of (resolved_masses r gs c0) a =
     (if a \<in> set (dict_keys (uniprot_id_protein_id_mapping gs)) then mass_source r c0 a else None)"
  by (simp add: resolved_masses_def map_of_foldl_step_masses split: option.splits)

lemma keys_resolved_masses:
  "set (dict_keys (resolved_masses r gs c0)) \<subseteq> set (dict_keys (uniprot_id_protein_id_mapping gs))"
proof
  fix a assume "a \<in> set (dict_keys (resolved_masses r gs c0))"
  with in_keys_iff [of a "resolved_masses r gs c0"] have "map_of (resolved_masses r gs c0) a \<noteq> None"
    by blast
  then show "a \<in> set (dict_keys (uniprot_id_protein_id_mapping gs))"
    by (simp add: map_of_resolved_masses split: if_splits)
qed

lemma assembler_ok:
  assumes "set (dict_keys masses) \<subseteq> set (dict_keys mapping)"
  shows "protein_id_mass_mapping mapping masses = (Inr (assembled mapping masses), [])"
proof -
  have 1: "\<forall>a\<in>set (dict_keys masses). map_of masses a \<noteq> None"
    using in_keys_iff [of _ masses] by blast
  have 2: "\<forall>a\<in>set (dict_keys masses). map_of mapping a \<noteq> None"
    using assms in_keys_iff [of _ mapping] by blast
  from assemble_ok [OF 1 2] show ?thesis
    by (simp add: protein_id_mass_mapping_def assembled_def)
qed

lemma run_ok:
  assumes "\<forall>u\<in>set (dict_keys (uniprot_id_protein_id_mapping gs)). map_of (cache w) u \<noteq> Some Corrupt"
  shows "fst (get_protein_mass_mapping r gs pf pn w) =
           Inr (assembled (uniprot_id_protein_id_mapping gs) (resolved_masses r gs (cache w)))"
    and "cache (snd (get_protein_mass_mapping r gs pf pn w)) = written_cache r gs (cache w)"
    and "files (snd (get_protein_mass_mapping r gs pf pn w)) =
           AList.update (output_path pf pn)
             (JsonFile (assembled (uniprot_id_protein_id_mapping gs) (resolved_masses r gs (cache w))))
             (files w)"
    and "requests (snd (get_protein_mass_mapping r gs pf pn w)) =
           requests w @ map uniprot_query_url
             (filter (\<lambda>u. u \<notin> set (dict_keys (cache w))) (dict_keys (uniprot_id_protein_id_mapping gs)))"
proof -
  obtain x w1 where res: "uniprot_id_protein_mass_mapping r gs w = (x, w1)"
    by (cases "uniprot_id_protein_mass_mapping r gs w")
  from resolver_ok [OF assms, of r] res
  have x: "x = Inr (resolved_masses r gs (cache w))" and c: "cache w1 = written_cache r gs (cache w)"
    and q: "requests w1 = requests w @ map uniprot_query_url
             (filter (\<lambda>u. u \<notin> set (dict_keys (cache w))) (dict_keys (uniprot_id_protein_id_mapping gs)))"
    by simp_all
  have f: "files w1 = files w"
    using resolve_files [of r "get_files w" "dict_keys (uniprot_id_protein_id_mapping gs)" "[]"
        "print StartingSearch w"] res
    by (simp add: uniprot_id_protein_mass_mapping_def)
  note asm = assembler_ok [OF keys_resolved_masses [of r gs "cache w"]]
  show "fst (get_protein_mass_mapping r gs pf pn w) =
           Inr (assembled (uniprot_id_protein_id_mapping gs) (resolved_masses r gs (cache w)))"
    by (simp add: get_protein_mass_mapping_def res x asm)
  show "cache (snd (get_protein_mass_mapping r gs pf pn w)) = written_cache r gs (cache w)"
    by (simp add: get_protein_mass_mapping_def res x asm json_write_def c)
  show "files (snd (get_protein_mass_mapping r gs pf pn w)) =
           AList.update (output_path pf pn)
             (JsonFile (assembled (uniprot_id_protein_id_mapping gs) (resolved_masses r gs (cache w))))
             (files w)"
    by (simp add: get_protein_mass_mapping_def res x asm json_write_def f)
  show "requests (snd (get_protein_mass_mapping r gs pf pn w)) =
           requests w @ map uniprot_query_url
             (filter (\<lambda>u. u \<notin> set (dict_keys (cache w))) (dict_keys (uniprot_id_protein_id_mapping gs)))"
    by (simp add: get_protein_mass_mapping_def res x asm json_write_def q)
qed

lemma run_resolver:
  "fst (get_protein_mass_mapping r gs pf pn w) = Inl e \<longleftrightarrow>
     fst (uniprot_id_protein_mass_mapping r gs w) = Inl e"
proof (cases "\<forall>u\<in>set (dict_keys (uniprot_id_protein_id_mapping gs)). map_of (cache w) u \<noteq> Some Corrupt")
  case True
  from run_ok(1) [OF True] resolver_ok(1) [OF True] show ?thesis by simp
next
  case False
  then obtain a where "a \<in> set (dict_keys (uniprot_id_protein_id_mapping gs))" "map_of (cache w) a = Some Corrupt"
    by blast
  from resolver_corrupt [OF this, of r] obtain b where
    "fst (uniprot_id_protein_mass_mapping r gs w) = Inl (CacheCorrupt b)" by blast
  then show ?thesis
    by (cases "uniprot_id_protein_mass_mapping r gs w") (simp add: get_protein_mass_mapping_def)
qed

lemma run_world_on_error:
  assumes "fst (uniprot_id_protein_mass_mapping r gs w) = Inl e"
  shows "get_protein_mass_mapping r gs pf pn w = uniprot_id_protein_mass_mapping r gs w"
  using assms
  by (cases "uniprot_id_protein_mass_mapping r gs w") (simp add: get_protein_mass_mapping_def)

lemma run_world:
  "cache (snd (get_protein_mass_mapping r gs pf pn w)) =
     cache (snd (uniprot_id_protein_mass_mapping r gs w))"
  "requests (snd (get_protein_mass_mapping r gs pf pn w)) =
     requests (snd (uniprot_id_protein_mass_mapping r gs w))"
  "sleeps (snd (get_protein_mass_mapping r gs pf pn w)) =
     sleeps (snd (uniprot_id_protein_mass_mapping r gs w))"
  by (simp_all add: get_protein_mass_mapping_def json_write_def split: prod.splits sum.splits)

lemma resolve_stdout:
  "\<exists>new. stdout (snd (resolve r cf us masses w)) = stdout w @ new \<and> (\<forall>a. NoMassFound a \<notin> set new)"
proof (induction us arbitrary: masses w)
  case Nil
  show ?case by simp
next
  case (Cons u us)
  show ?case
  proof (cases "u \<in> set cf")
    case True
    show ?thesis
    proof (cases "pickle_load w u")
      case (Inl e)
      with True show ?thesis by (simp add: resolve_Cons_fail del: resolve.simps)
    next
      case (Inr m)
      from Cons.IH [of "AList.update u m masses" "print (CachedMass u m) w"]
      obtain new where "stdout (snd (resolve r cf us (AList.update u m masses) (print (CachedMass u m) w))) =
        stdout w @ CachedMass u m # new" "\<forall>a. NoMassFound a \<notin> set new" by auto
      with True Inr show ?thesis
        by (simp add: resolve_Cons_hit del: resolve.simps)
    qed
  next
    case False
    from Cons.IH [of "search_masses r u masses" "snd (search_uniprot r u masses w)"]
    obtain new where "stdout (snd (resolve r cf us (search_masses r u masses) (snd (search_uniprot r u masses w)))) =
        stdout w @ UniProtSearchFor u # new" "\<forall>a. NoMassFound a \<notin> set new"
      by (auto simp: stdout_search_uniprot)
    with False show ?thesis
      by (simp add: resolve_Cons_miss del: resolve.simps)
  qed
qed

lemma url_inject [simp]: "uniprot_query_url u = uniprot_query_url a \<longleftrightarrow> u = a"
  by (simp add: uniprot_query_url_def)

lemma resolve_requests_kept:
  "a \<in> set cf \<Longrightarrow>
     count_list (requests (snd (resolve r cf us masses w))) (uniprot_query_url a) =
     count_list (requests w) (uniprot_query_url a)"
proof (induction us arbitrary: masses w)
  case Nil
  show ?case by simp
next
  case (Cons u us)
  show ?case
  proof (cases "u \<in> set cf")
    case True
    then show ?thesis
      by (cases "pickle_load w u")
        (simp_all add: Cons.IH [OF Cons.prems] resolve_Cons_hit resolve_Cons_fail del: resolve.simps)
  next
    case False
    with Cons.prems have "u \<noteq> a" by auto
    with False show ?thesis
      by (simp add: resolve_Cons_miss Cons.IH [OF Cons.prems] requests_search_uniprot
          del: resolve.simps)
  qed
qed

lemma run_stdout:
  "\<exists>new. stdout (snd (get_protein_mass_mapping r gs pf pn w)) = stdout w @ new \<and>
         (\<forall>a. NoMassFound a \<notin> set new)"
proof -
  obtain x w1 where res: "uniprot_id_protein_mass_mapping r gs w = (x, w1)"
    by (cases "uniprot_id_protein_mass_mapping r gs w")
  from resolve_stdout [of r "get_files w" "dict_keys (uniprot_id_protein_id_mapping gs)" "[]"
      "print StartingSearch w"] res
  obtain new where new: "stdout w1 = stdout w @ StartingSearch # new" "\<forall>a. NoMassFound a \<notin> set new"
    by (auto simp: uniprot_id_protein_mass_mapping_def)
  show ?thesis
  proof (cases x)
    case (Inl e)
    with res new show ?thesis by (simp add: get_protein_mass_mapping_def)
  next
    case (Inr masses)
    with res have "fst (uniprot_id_protein_mass_mapping r gs w) = Inr masses" by simp
    from resolver_Inr(2) [OF this] have "masses = resolved_masses r gs (cache w)" .
    with assembler_ok [OF keys_resolved_masses [of r gs "cache w"]] res Inr new show ?thesis
      by (simp add: get_protein_mass_mapping_def json_write_def)
  qed
qed

lemma run_Inr:
  assumes "fst (get_protein_mass_mapping r gs pf pn w) = Inr out"
  shows "\<forall>u\<in>set (dict_keys (uniprot_id_protein_id_mapping gs)). map_of (cache w) u \<noteq> Some Corrupt"
    and "fst (uniprot_id_protein_mass_mapping r gs w) = Inr (resolved_masses r gs (cache w))"
    and "out = assembled (uniprot_id_protein_id_mapping gs) (resolved_masses r gs (cache w))"
proof -
  show ok: "\<forall>u\<in>set (dict_keys (uniprot_id_protein_id_mapping gs)). map_of (cache w) u \<noteq> Some Corrupt"
  proof (intro ballI notI)
    fix u assume "u \<in> set (dict_keys (uniprot_id_protein_id_mapping gs))" "map_of (cache w) u = Some Corrupt"
    from resolver_corrupt [OF this, of r] obtain b where
      "fst (uniprot_id_protein_mass_mapping r gs w) = Inl (CacheCorrupt b)" by blast
    with run_resolver [of r gs pf pn w "CacheCorrupt b"] assms show False by simp
  qed
  from resolver_ok(1) [OF ok]
  show "fst (uniprot_id_protein_mass_mapping r gs w) = Inr (resolved_masses r gs (cache w))" .
  from run_ok(1) [OF ok, of r pf pn] assms
  show "out = assembled (uniprot_id_protein_id_mapping gs) (resolved_masses r gs (cache w))" by simp
qed

lemma map_of_assembled_None:
  assumes "map_of (assembled mapping masses) p \<noteq> None"
  shows "\<exists>a ids m. map_of mapping a = Some ids \<and> map_of masses a = Some m \<and> p \<in> set ids"
proof (rule ccontr)
  assume "\<not> ?thesis"
  then have "\<forall>a\<in>set (dict_keys masses). \<forall>ids. map_of mapping a = Some ids \<longrightarrow>
               map_of masses a \<noteq> None \<longrightarrow> p \<notin> set ids" by (metis not_None_eq)
  from foldl_step_out_absent [OF _ this, of "[]"] assms show False
    by (simp add: assembled_def)
qed

lemma map_of_assembled_value:
  assumes "map_of mapping a = Some ids" and "p \<in> set ids" and "map_of masses a = Some m"
    and "\<forall>b ids'. map_of mapping b = Some ids' \<longrightarrow> p \<in> set ids' \<longrightarrow> b = a"
  shows "map_of (assembled mapping masses) p = Some m"
proof -
  from assms(3) in_keys_iff [of a masses] have "a \<in> set (dict_keys masses)" by simp
  then have 1: "map_of [] p = Some m \<or> a \<in> set (dict_keys masses)" by simp
  from assms(4) have 2: "\<forall>b\<in>set (dict_keys masses). \<forall>ids'. map_of mapping b = Some ids' \<longrightarrow>
    p \<in> set ids' \<longrightarrow> b = a" by blast
  from foldl_step_out_value [OF 1 assms(1,2,3) 2] show ?thesis
    by (simp add: assembled_def)
qed

lemma group_Some_ids_of:
  "map_of (uniprot_id_protein_id_mapping gs) a = Some ids \<Longrightarrow> ids = ids_of gs a"
  by (simp add: map_of_uniprot_id_protein_id_mapping split: if_splits)

lemma last_standardize_folder: "last (standardize_folder folder) = CHR ''/''"
  by (simp add: standardize_folder_def)

lemma map_of_foldl_step_cache:
  "map_of (foldl (step_cache r c0) c us) a =
     (if a \<in> set us \<and> map_of c0 a = None \<and> uniprot_mass r a \<noteq> None
      then map_option Pickled (uniprot_mass r a) else map_of c a)"
proof (induction us arbitrary: c)
  case Nil
  show ?case by simp
next
  case (Cons u us)
  have "map_of (step_cache r c0 c u) a =
          (if a = u \<and> map_of c0 a = None \<and> uniprot_mass r a \<noteq> None
           then map_option Pickled (uniprot_mass r a) else map_of c a)"
    by (auto simp: step_cache_def update_conv' split: option.splits)
  with Cons.IH [of "step_cache r c0 c u"] show ?case
    by auto
qed

lemma map_of_written_cache:
  "map_of (written_cache r gs c0) a =
     (if a \<in> set (dict_keys (uniprot_id_protein_id_mapping gs)) \<and> map_of c0 a = None \<and>
         uniprot_mass r a \<noteq> None
      then map_option Pickled (uniprot_mass r a) else map_of c0 a)"
  by (simp add: written_cache_def map_of_foldl_step_cache)

lemma count_list_requested:
  "distinct us \<Longrightarrow>
     count_list (map uniprot_query_url (filter P us)) (uniprot_query_url a) =
       (if a \<in> set us \<and> P a then 1 else 0)"
  by (induction us) auto

lemma foldl_ident: "(\<And>x c. x \<in> set xs \<Longrightarrow> f c x = c) \<Longrightarrow> foldl f c xs = c"
  by (induction xs arbitrary: c) simp_all

text \<open>A second run on the world that a first run has left.\<close>

lemma rerun:
  assumes ok: "\<forall>u\<in>set (dict_keys (uniprot_id_protein_id_mapping gs)). map_of (cache w) u \<noteq> Some Corrupt"
    and w1: "w1 = snd (get_protein_mass_mapping r gs pf pn w)"
  shows "fst (get_protein_mass_mapping r gs pf pn w1) = fst (get_protein_mass_mapping r gs pf pn w)"
    and "cache (snd (get_protein_mass_mapping r gs pf pn w1)) = cache w1"
    and "files (snd (get_protein_mass_mapping r gs pf pn w1)) = files w1"
proof -
  let ?us = "dict_keys (uniprot_id_protein_id_mapping gs)"
  let ?c0 = "cache w"
  let ?c1 = "written_cache r gs (cache w)"
  from run_ok(2) [OF ok, of r pf pn] w1 have c1: "cache w1 = ?c1" by simp
  have ok1: "\<forall>u\<in>set ?us. map_of (cache w1) u \<noteq> Some Corrupt"
    using ok by (auto simp: c1 map_of_written_cache)
  have src: "mass_source r ?c1 u = mass_source r ?c0 u" if "u \<in> set ?us" for u
    using that by (cases "map_of ?c0 u"; cases "uniprot_mass r u")
      (simp_all add: mass_source_def map_of_written_cache)
  have "foldl (step_masses r ?c1) [] ?us = foldl (step_masses r ?c0) [] ?us"
    by (rule foldl_cong) (simp_all add: step_masses_def src)
  then have masses: "resolved_masses r gs (cache w1) = resolved_masses r gs (cache w)"
    by (simp add: resolved_masses_def c1)
  from run_ok(1) [OF ok1, of r pf pn] run_ok(1) [OF ok, of r pf pn] masses
  show "fst (get_protein_mass_mapping r gs pf pn w1) = fst (get_protein_mass_mapping r gs pf pn w)"
    by simp
  have "step_cache r ?c1 c u = c" if "u \<in> set ?us" for u c
    using that by (cases "map_of ?c0 u"; cases "uniprot_mass r u")
      (simp_all add: step_cache_def map_of_written_cache)
  then have "foldl (step_cache r ?c1) ?c1 ?us = ?c1"
    by (rule foldl_ident)
  with run_ok(2) [OF ok1, of r pf pn] show "cache (snd (get_protein_mass_mapping r gs pf pn w1)) = cache w1"
    by (simp add: c1 written_cache_def)
  from run_ok(3) [OF ok1, of r pf pn] run_ok(3) [OF ok, of r pf pn] masses w1
  show "files (snd (get_protein_mass_mapping r gs pf pn w1)) = files w1"
    by simp
qed

lemma second_run_example:
  "get_protein_mass_mapping (fake_remote [(''P1'', 10.5)])
     [gene_with ''g1'' ''P1'', gene_with ''g2'' ''P2''] ''out'' ''m''
     (snd (get_protein_mass_mapping (fake_remote [(''P1'', 10.5)])
        [gene_with ''g1'' ''P1'', gene_with ''g2'' ''P2''] ''out'' ''m'' (fresh_world []))) =
   (Inr [(''g1'', 10.5)],
    \<lparr>cache = [(''P1'', Pickled 10.5)],
     files = [(''out/m_protein_id_mass_mapping.json'', JsonFile [(''g1'', 10.5)])],
     stdout = [StartingSearch, UniProtSearchFor ''P1'', UniProtSearchFor ''P2'', MappingDone,
               StartingSearch, CachedMass ''P1'' 10.5, UniProtSearchFor ''P2'', MappingDone],
     requests = [uniprot_query_url ''P1'', uniprot_query_url ''P2'', uniprot_query_url ''P2''],
     sleeps = 3\<rparr>)"
  by (simp add: example_defs)

section \<open>The claims\<close>

text \<open>
  C4. When every accession of the grouping already has a file in the cache folder at the
  start of the run, the run requests no URL and never sleeps: the lists of requests and
  the count of sleeps are the same after the run as before it, whatever the outcome.
\<close>

theorem full_cache_no_remote_call:
  assumes "set (dict_keys (uniprot_id_protein_id_mapping gs)) \<subseteq> set (get_files w)"
  shows "requests (snd (get_protein_mass_mapping r gs pf pn w)) = requests w \<and>
         sleeps (snd (get_protein_mass_mapping r gs pf pn w)) = sleeps w"
  using resolve_all_cached [OF assms, of r "[]" "print StartingSearch w"]
  by (simp add: run_world uniprot_id_protein_mass_mapping_def)

theorem full_cache_no_remote_call_witness:
  "set (dict_keys (uniprot_id_protein_id_mapping [gene_with ''g1'' ''P1'', gene_with ''g2'' ''P2'']))
     \<subseteq> set (get_files (fresh_world [(''P2'', Pickled 3), (''P1'', Pickled 10.5)])) \<and>
   requests (snd (get_protein_mass_mapping (fake_remote [])
     [gene_with ''g1'' ''P1'', gene_with ''g2'' ''P2''] ''out'' ''m''
     (fresh_world [(''P2'', Pickled 3), (''P1'', Pickled 10.5)]))) = [] \<and>
   sleeps (snd (get_protein_mass_mapping (fake_remote [])
     [gene_with ''g1'' ''P1'', gene_with ''g2'' ''P2''] ''out'' ''m''
     (fresh_world [(''P2'', Pickled 3), (''P1'', Pickled 10.5)]))) = 0"
proof -
  have h: "set (dict_keys (uniprot_id_protein_id_mapping
                 [gene_with ''g1'' ''P1'', gene_with ''g2'' ''P2'']))
     \<subseteq> set (get_files (fresh_world [(''P2'', Pickled 3), (''P1'', Pickled 10.5)]))"
    by (simp add: example_defs)
  from full_cache_no_remote_call [OF h, of "fake_remote []" "''out''" "''m''"] h show ?thesis
    by (simp add: fresh_world_def)
qed

text \<open>
  C10. When the resolver loop ends without an exception, every key of
  \<open>uniprot_id_protein_mass_mapping\<close> is a key of \<open>uniprot_id_protein_id_mapping\<close>, so the
  lookup of line 125 succeeds for every resolved accession, the assembler ends without an
  exception and prints nothing; no run prints a "No mass found" line.
\<close>

theorem resolved_accessions_are_grouped:
  assumes "uniprot_id_protein_mass_mapping r gs w = (Inr masses, w1)"
  shows "set (dict_keys masses) \<subseteq> set (dict_keys (uniprot_id_protein_id_mapping gs)) \<and>
         (\<forall>a\<in>set (dict_keys masses). map_of (uniprot_id_protein_id_mapping gs) a \<noteq> None) \<and>
         (\<exists>out. protein_id_mass_mapping (uniprot_id_protein_id_mapping gs) masses = (Inr out, [])) \<and>
         (\<exists>new. stdout (snd (get_protein_mass_mapping r gs pf pn w)) = stdout w @ new \<and>
                (\<forall>a. NoMassFound a \<notin> set new))"
proof -
  from assms resolve_keys [of r "get_files w" "dict_keys (uniprot_id_protein_id_mapping gs)" "[]"
      "print StartingSearch w" masses w1]
  have sub: "set (dict_keys masses) \<subseteq> set (dict_keys (uniprot_id_protein_id_mapping gs))"
    by (simp add: uniprot_id_protein_mass_mapping_def)
  then have "\<forall>a\<in>set (dict_keys masses). map_of (uniprot_id_protein_id_mapping gs) a \<noteq> None"
    using in_keys_iff [of _ "uniprot_id_protein_id_mapping gs"] by blast
  with sub assembler_ok [OF sub] run_stdout [of r gs pf pn w] show ?thesis by blast
qed

theorem resolved_accessions_are_grouped_witness:
  "uniprot_id_protein_mass_mapping (fake_remote [(''P1'', 10.5)])
     [gene_with ''g1'' ''P1'', gene_with ''g2'' ''P2'', gene_without ''g3''] (fresh_world []) =
     (Inr [(''P1'', 10.5)],
      \<lparr>cache = [(''P1'', Pickled 10.5)], files = [],
       stdout = [StartingSearch, UniProtSearchFor ''P1'', UniProtSearchFor ''P2''],
       requests = [uniprot_query_url ''P1'', uniprot_query_url ''P2''], sleeps = 2\<rparr>) \<and>
   set (dict_keys [(''P1'', 10.5 :: mass)]) \<subseteq>
     set (dict_keys (uniprot_id_protein_id_mapping
       [gene_with ''g1'' ''P1'', gene_with ''g2'' ''P2'', gene_without ''g3''])) \<and>
   snd (protein_id_mass_mapping (uniprot_id_protein_id_mapping
       [gene_with ''g1'' ''P1'', gene_with ''g2'' ''P2'', gene_without ''g3'']) [(''P1'', 10.5)]) = []"
proof -
  have h: "uniprot_id_protein_mass_mapping (fake_remote [(''P1'', 10.5)])
     [gene_with ''g1'' ''P1'', gene_with ''g2'' ''P2'', gene_without ''g3''] (fresh_world []) =
     (Inr [(''P1'', 10.5)],
      \<lparr>cache = [(''P1'', Pickled 10.5)], files = [],
       stdout = [StartingSearch, UniProtSearchFor ''P1'', UniProtSearchFor ''P2''],
       requests = [uniprot_query_url ''P1'', uniprot_query_url ''P2''], sleeps = 2\<rparr>)"
    by (simp add: example_defs)
  from resolved_accessions_are_grouped [OF h, of "''out''" "''m''"] h show ?thesis
    by auto
qed

text \<open>
  C7. When an accession of the model has a cache file that does not unpickle, the run ends
  with the exception of \<open>pickle_load\<close> on such a file: the file of that accession is
  left as it was, its URL is not requested, and no output file is written.
\<close>

theorem corrupt_cache_record_is_fatal:
  assumes "a \<in> set (dict_keys (uniprot_id_protein_id_mapping gs))"
    and "map_of (cache w) a = Some Corrupt"
  shows "(\<exists>b. fst (get_protein_mass_mapping r gs pf pn w) = Inl (CacheCorrupt b) \<and>
              map_of (cache w) b = Some Corrupt) \<and>
         map_of (cache (snd (get_protein_mass_mapping r gs pf pn w))) a = Some Corrupt \<and>
         count_list (requests (snd (get_protein_mass_mapping r gs pf pn w))) (uniprot_query_url a) =
           count_list (requests w) (uniprot_query_url a) \<and>
         files (snd (get_protein_mass_mapping r gs pf pn w)) = files w"
proof -
  from resolver_corrupt [OF assms, of r] obtain b where
    b: "fst (uniprot_id_protein_mass_mapping r gs w) = Inl (CacheCorrupt b)"
    "map_of (cache w) b = Some Corrupt" by blast
  from run_world_on_error [OF b(1)]
  have eq: "get_protein_mass_mapping r gs pf pn w = uniprot_id_protein_mass_mapping r gs w" .
  from assms(2) in_keys_iff [of a "cache w"] have cf: "a \<in> set (get_files w)"
    by (simp add: get_files_def)
  have "map_of (cache (snd (uniprot_id_protein_mass_mapping r gs w))) a = Some Corrupt"
    using resolve_cache_kept [OF cf, of r _ "[]" "print StartingSearch w"] assms(2)
    by (simp add: uniprot_id_protein_mass_mapping_def)
  moreover have "count_list (requests (snd (uniprot_id_protein_mass_mapping r gs w))) (uniprot_query_url a) =
           count_list (requests w) (uniprot_query_url a)"
    using resolve_requests_kept [OF cf, of r _ "[]" "print StartingSearch w"]
    by (simp add: uniprot_id_protein_mass_mapping_def)
  moreover have "files (snd (uniprot_id_protein_mass_mapping r gs w)) = files w"
    by (simp add: uniprot_id_protein_mass_mapping_def resolve_files)
  ultimately show ?thesis using b eq by auto
qed

theorem corrupt_cache_record_is_fatal_witness:
  "''P2'' \<in> set (dict_keys (uniprot_id_protein_id_mapping [gene_with ''g1'' ''P1'', gene_with ''g2'' ''P2''])) \<and>
   map_of (cache (fresh_world [(''P2'', Corrupt)])) ''P2'' = Some Corrupt \<and>
   get_protein_mass_mapping (fake_remote [(''P1'', 10.5), (''P2'', 7)])
     [gene_with ''g1'' ''P1'', gene_with ''g2'' ''P2''] ''out'' ''m'' (fresh_world [(''P2'', Corrupt)]) =
     (Inl (CacheCorrupt ''P2''),
      \<lparr>cache = [(''P2'', Corrupt), (''P1'', Pickled 10.5)], files = [],
       stdout = [StartingSearch, UniProtSearchFor ''P1''],
       requests = [uniprot_query_url ''P1''], sleeps = 1\<rparr>)"
proof -
  have h1: "''P2'' \<in> set (dict_keys (uniprot_id_protein_id_mapping [gene_with ''g1'' ''P1'', gene_with ''g2'' ''P2'']))"
    by (simp add: example_defs)
  have h2: "map_of (cache (fresh_world [(''P2'', Corrupt)])) ''P2'' = Some Corrupt"
    by (simp add: fresh_world_def)
  have "get_protein_mass_mapping (fake_remote [(''P1'', 10.5), (''P2'', 7)])
     [gene_with ''g1'' ''P1'', gene_with ''g2'' ''P2''] ''out'' ''m'' (fresh_world [(''P2'', Corrupt)]) =
     (Inl (CacheCorrupt ''P2''),
      \<lparr>cache = [(''P2'', Corrupt), (''P1'', Pickled 10.5)], files = [],
       stdout = [StartingSearch, UniProtSearchFor ''P1''],
       requests = [uniprot_query_url ''P1''], sleeps = 1\<rparr>)"
    by (simp add: example_defs)
  with corrupt_cache_record_is_fatal [OF h1 h2, of "fake_remote [(''P1'', 10.5), (''P2'', 7)]" "''out''" "''m''"]
    h1 h2 show ?thesis by blast
qed

text \<open>
  C1. When a run ends with an output mapping, every key of it is the \<open>id\<close> of a gene that
  has a \<open>"uniprot"\<close> annotation whose accession has a mass in
  \<open>uniprot_id_protein_mass_mapping\<close>, read from the cache file the folder had at the start
  or, that file missing, fetched from UniProt. A gene without the annotation is not a key
  of the output (the \<open>id\<close>s of \<open>model.genes\<close> being distinct, as in a cobra model).
\<close>

theorem output_keys_are_resolved_genes:
  assumes "fst (get_protein_mass_mapping r gs pf pn w) = Inr out"
  shows "\<exists>masses. fst (uniprot_id_protein_mass_mapping r gs w) = Inr masses \<and>
           (\<forall>p\<in>set (dict_keys out). \<exists>g\<in>set gs. \<exists>a m.
              gene_id g = p \<and> map_of (annotation g) ''uniprot'' = Some a \<and>
              map_of masses a = Some m \<and>
              (map_of (cache w) a = Some (Pickled m) \<or>
               map_of (cache w) a = None \<and> uniprot_mass r a = Some m)) \<and>
           (distinct (map gene_id gs) \<longrightarrow>
              (\<forall>g\<in>set gs. map_of (annotation g) ''uniprot'' = None \<longrightarrow>
                 gene_id g \<notin> set (dict_keys out)))"
proof -
  let ?mapping = "uniprot_id_protein_id_mapping gs"
  let ?masses = "resolved_masses r gs (cache w)"
  note run = run_Inr [OF assms]
  have keys: "\<exists>g\<in>set gs. \<exists>a m.
              gene_id g = p \<and> map_of (annotation g) ''uniprot'' = Some a \<and>
              map_of ?masses a = Some m \<and>
              (map_of (cache w) a = Some (Pickled m) \<or>
               map_of (cache w) a = None \<and> uniprot_mass r a = Some m)"
    if "p \<in> set (dict_keys out)" for p
  proof -
    from that in_keys_iff [of p out] run(3) have "map_of (assembled ?mapping ?masses) p \<noteq> None"
      by simp
    from map_of_assembled_None [OF this] obtain a ids m where
      a: "map_of ?mapping a = Some ids" "map_of ?masses a = Some m" "p \<in> set ids" by blast
    from a(1,3) group_Some_ids_of have "p \<in> set (ids_of gs a)" by blast
    then obtain g where g: "g \<in> set gs" "gene_id g = p" "map_of (annotation g) ''uniprot'' = Some a"
      by (auto simp: in_ids_of_iff)
    from a(2) have "mass_source r (cache w) a = Some m"
      by (simp add: map_of_resolved_masses split: if_splits)
    then have "map_of (cache w) a = Some (Pickled m) \<or>
               map_of (cache w) a = None \<and> uniprot_mass r a = Some m"
      by (auto simp: mass_source_def split: option.splits pickle.splits)
    with g a(2) show ?thesis by blast
  qed
  have skip: "gene_id g \<notin> set (dict_keys out)"
    if d: "distinct (map gene_id gs)" and g: "g \<in> set gs" "map_of (annotation g) ''uniprot'' = None" for g
  proof
    assume "gene_id g \<in> set (dict_keys out)"
    from keys [OF this] obtain h a where h: "h \<in> set gs" "gene_id h = gene_id g"
      "map_of (annotation h) ''uniprot'' = Some a" by blast
    from d g(1) h(1,2) have "h = g" by (metis distinct_map inj_onD)
    with g(2) h(3) show False by simp
  qed
  from run(2) keys skip show ?thesis by blast
qed

theorem output_keys_are_resolved_genes_witness:
  "fst (get_protein_mass_mapping (fake_remote [(''P1'', 10.5)])
     [gene_with ''g1'' ''P1'', gene_with ''g2'' ''P2'', gene_without ''g3''] ''out'' ''m''
     (fresh_world [])) = Inr [(''g1'', 10.5)] \<and>
   distinct (map gene_id [gene_with ''g1'' ''P1'', gene_with ''g2'' ''P2'', gene_without ''g3'']) \<and>
   map_of (annotation (gene_without ''g3'')) ''uniprot'' = None \<and>
   gene_id (gene_without ''g3'') \<notin> set (dict_keys [(''g1'', 10.5 :: mass)])"
proof -
  have h: "fst (get_protein_mass_mapping (fake_remote [(''P1'', 10.5)])
     [gene_with ''g1'' ''P1'', gene_with ''g2'' ''P2'', gene_without ''g3''] ''out'' ''m''
     (fresh_world [])) = Inr [(''g1'', 10.5)]"
    by (simp add: example_defs)
  have d: "distinct (map gene_id [gene_with ''g1'' ''P1'', gene_with ''g2'' ''P2'', gene_without ''g3''])"
    by (simp add: gene_with_def gene_without_def)
  have n: "map_of (annotation (gene_without ''g3'')) ''uniprot'' = None"
    by (simp add: gene_without_def)
  from output_keys_are_resolved_genes [OF h] d n
  have "gene_id (gene_without ''g3'') \<notin> set (dict_keys [(''g1'', 10.5 :: mass)])"
    by (meson list.set_intros)
  with h d n show ?thesis by blast
qed

text \<open>
  C2. For the genes g1 with accession P1, g2 with accession P2 and g3 without annotation,
  an empty cache folder, and a remote service that gives the mass 10.5 for P1 and fails for
  P2, the run ends with the output mapping that holds g1 with 10.5 and nothing else.
\<close>

theorem end_to_end_example:
  assumes "uniprot_mass r ''P1'' = Some 10.5" and "uniprot_mass r ''P2'' = None"
  shows "fst (get_protein_mass_mapping r
           [gene_with ''g1'' ''P1'', gene_with ''g2'' ''P2'', gene_without ''g3'']
           project_folder project_name (w\<lparr>cache := []\<rparr>)) = Inr [(''g1'', 10.5)]"
  using assms
  by (simp add: gene_with_def gene_without_def get_protein_mass_mapping_def
      uniprot_id_protein_mass_mapping_def uniprot_id_protein_id_mapping_def
      protein_id_mass_mapping_def group_gene_def get_files_def search_uniprot_def print_def
      pickle_write_def json_write_def Let_def)

theorem end_to_end_example_witness:
  "uniprot_mass (fake_remote [(''P1'', 10.5)]) ''P1'' = Some 10.5 \<and>
   uniprot_mass (fake_remote [(''P1'', 10.5)]) ''P2'' = None \<and>
   fst (get_protein_mass_mapping (fake_remote [(''P1'', 10.5)])
           [gene_with ''g1'' ''P1'', gene_with ''g2'' ''P2'', gene_without ''g3'']
           ''out'' ''m'' ((fresh_world [(''P9'', Corrupt)])\<lparr>cache := []\<rparr>)) = Inr [(''g1'', 10.5)]"
proof -
  have 1: "uniprot_mass (fake_remote [(''P1'', 10.5)]) ''P1'' = Some 10.5"
    by (simp add: uniprot_mass_def fake_remote_def uniprot_query_url_def)
  have 2: "uniprot_mass (fake_remote [(''P1'', 10.5)]) ''P2'' = None"
    by (simp add: uniprot_mass_def fake_remote_def uniprot_query_url_def)
  from end_to_end_example [OF 1 2] 1 2 show ?thesis by blast
qed

text \<open>
  C5. When a run ends with an output mapping and an accession has a mass \<open>m\<close> in
  \<open>uniprot_id_protein_mass_mapping\<close>, every protein ID listed under that accession in
  \<open>uniprot_id_protein_id_mapping\<close> has the value \<open>m\<close> in the output (the \<open>id\<close>s of
  \<open>model.genes\<close> being distinct, as in a cobra model).
\<close>

theorem fan_out:
  assumes "distinct (map gene_id gs)"
    and "fst (get_protein_mass_mapping r gs pf pn w) = Inr out"
    and "fst (uniprot_id_protein_mass_mapping r gs w) = Inr masses"
    and "map_of (uniprot_id_protein_id_mapping gs) a = Some ids"
    and "map_of masses a = Some m"
  shows "\<forall>p\<in>set ids. map_of out p = Some m"
proof
  fix p assume p: "p \<in> set ids"
  note run = run_Inr [OF assms(2)]
  from run(2) assms(3) have masses: "masses = resolved_masses r gs (cache w)" by simp
  have "\<forall>b ids'. map_of (uniprot_id_protein_id_mapping gs) b = Some ids' \<longrightarrow> p \<in> set ids' \<longrightarrow> b = a"
  proof (intro allI impI)
    fix b ids' assume b: "map_of (uniprot_id_protein_id_mapping gs) b = Some ids'" "p \<in> set ids'"
    from group_Some_ids_of [OF b(1)] b(2) have 1: "p \<in> set (ids_of gs b)" by simp
    from group_Some_ids_of [OF assms(4)] p have 2: "p \<in> set (ids_of gs a)" by simp
    from ids_of_unique [OF assms(1) 1 2] show "b = a" .
  qed
  from map_of_assembled_value [OF assms(4) p assms(5) this] run(3) masses
  show "map_of out p = Some m" by simp
qed

theorem fan_out_witness:
  "distinct (map gene_id [gene_with ''g1'' ''P1'', gene_with ''g2'' ''P1'']) \<and>
   fst (get_protein_mass_mapping (fake_remote [(''P1'', 55.2)])
     [gene_with ''g1'' ''P1'', gene_with ''g2'' ''P1''] ''out'' ''m'' (fresh_world [])) =
     Inr [(''g1'', 55.2), (''g2'', 55.2)] \<and>
   fst (uniprot_id_protein_mass_mapping (fake_remote [(''P1'', 55.2)])
     [gene_with ''g1'' ''P1'', gene_with ''g2'' ''P1''] (fresh_world [])) = Inr [(''P1'', 55.2)] \<and>
   map_of (uniprot_id_protein_id_mapping [gene_with ''g1'' ''P1'', gene_with ''g2'' ''P1'']) ''P1'' =
     Some [''g1'', ''g2''] \<and>
   map_of [(''P1'', 55.2 :: mass)] ''P1'' = Some 55.2 \<and>
   map_of [(''g1'', 55.2 :: mass), (''g2'', 55.2)] ''g1'' = Some 55.2 \<and>
   map_of [(''g1'', 55.2 :: mass), (''g2'', 55.2)] ''g2'' = Some 55.2"
proof -
  have d: "distinct (map gene_id [gene_with ''g1'' ''P1'', gene_with ''g2'' ''P1''])"
    by (simp add: gene_with_def)
  have run: "fst (get_protein_mass_mapping (fake_remote [(''P1'', 55.2)])
     [gene_with ''g1'' ''P1'', gene_with ''g2'' ''P1''] ''out'' ''m'' (fresh_world [])) =
     Inr [(''g1'', 55.2), (''g2'', 55.2)]"
    by (simp add: example_defs)
  have res: "fst (uniprot_id_protein_mass_mapping (fake_remote [(''P1'', 55.2)])
     [gene_with ''g1'' ''P1'', gene_with ''g2'' ''P1''] (fresh_world [])) = Inr [(''P1'', 55.2)]"
    by (simp add: example_defs)
  have grp: "map_of (uniprot_id_protein_id_mapping [gene_with ''g1'' ''P1'', gene_with ''g2'' ''P1'']) ''P1'' =
     Some [''g1'', ''g2'']"
    by (simp add: example_defs)
  have m: "map_of [(''P1'', 55.2 :: mass)] ''P1'' = Some 55.2" by simp
  from fan_out [OF d run res grp m]
  have "map_of [(''g1'', 55.2 :: mass), (''g2'', 55.2)] ''g1'' = Some 55.2 \<and>
        map_of [(''g1'', 55.2 :: mass), (''g2'', 55.2)] ''g2'' = Some 55.2"
    by (simp del: map_of.simps)
  with d run res grp m show ?thesis by blast
qed

text \<open>
  C9. When a run ends with an output mapping, the mapping has been written to the path
  made of the standardized project folder, the project name and the suffix
  \<open>_protein_id_mass_mapping.json\<close>, whatever was at that path before, and no other file
  has changed. The standardized folder ends with the separator: it is the folder itself
  when that ends with one, the folder followed by one otherwise.
\<close>

theorem output_file_path:
  assumes "fst (get_protein_mass_mapping r gs project_folder project_name w) = Inr out"
  shows "files (snd (get_protein_mass_mapping r gs project_folder project_name w)) =
           AList.update
             (standardize_folder project_folder @ project_name @ ''_protein_id_mass_mapping.json'')
             (JsonFile out) (files w) \<and>
         map_of (files (snd (get_protein_mass_mapping r gs project_folder project_name w)))
             (standardize_folder project_folder @ project_name @ ''_protein_id_mass_mapping.json'') =
           Some (JsonFile out) \<and>
         last (standardize_folder project_folder) = CHR ''/'' \<and>
         (standardize_folder project_folder = project_folder \<or>
          standardize_folder project_folder = project_folder @ ''/'')"
proof -
  note run = run_Inr [OF assms]
  from run_ok(3) [OF run(1), of r project_folder project_name] run(3)
  have "files (snd (get_protein_mass_mapping r gs project_folder project_name w)) =
           AList.update
             (standardize_folder project_folder @ project_name @ ''_protein_id_mass_mapping.json'')
             (JsonFile out) (files w)"
    by (simp add: output_path_def)
  then show ?thesis
    by (simp add: update_conv' last_standardize_folder) (simp add: standardize_folder_def)
qed

theorem output_file_path_witness:
  "fst (get_protein_mass_mapping (fake_remote [(''P1'', 10.5)]) [gene_with ''g1'' ''P1'']
     ''out'' ''m''
     ((fresh_world [])\<lparr>files := [(''out/m_protein_id_mass_mapping.json'', OtherFile ''old'')]\<rparr>)) =
     Inr [(''g1'', 10.5)] \<and>
   files (snd (get_protein_mass_mapping (fake_remote [(''P1'', 10.5)]) [gene_with ''g1'' ''P1'']
     ''out'' ''m''
     ((fresh_world [])\<lparr>files := [(''out/m_protein_id_mass_mapping.json'', OtherFile ''old'')]\<rparr>))) =
     [(''out/m_protein_id_mass_mapping.json'', JsonFile [(''g1'', 10.5)])]"
proof -
  have h: "fst (get_protein_mass_mapping (fake_remote [(''P1'', 10.5)]) [gene_with ''g1'' ''P1'']
     ''out'' ''m''
     ((fresh_world [])\<lparr>files := [(''out/m_protein_id_mass_mapping.json'', OtherFile ''old'')]\<rparr>)) =
     Inr [(''g1'', 10.5)]"
    by (simp add: example_defs)
  from output_file_path [OF h] h show ?thesis
    by (simp add: standardize_folder_def fresh_world_def)
qed

text \<open>
  C6. A run that starts with an empty cache folder ends with an output mapping; a second
  run with the same remote service, model and arguments, on what the first has left, ends
  with the same output mapping and leaves the cache folder and the output file as the
  first run left them. Every cache file holds the same mass after the second run as after
  the first.
\<close>

theorem second_run_changes_nothing:
  "(\<exists>out. fst (get_protein_mass_mapping r gs pf pn (w\<lparr>cache := []\<rparr>)) = Inr out) \<and>
   fst (get_protein_mass_mapping r gs pf pn
          (snd (get_protein_mass_mapping r gs pf pn (w\<lparr>cache := []\<rparr>)))) =
     fst (get_protein_mass_mapping r gs pf pn (w\<lparr>cache := []\<rparr>)) \<and>
   cache (snd (get_protein_mass_mapping r gs pf pn
          (snd (get_protein_mass_mapping r gs pf pn (w\<lparr>cache := []\<rparr>))))) =
     cache (snd (get_protein_mass_mapping r gs pf pn (w\<lparr>cache := []\<rparr>))) \<and>
   files (snd (get_protein_mass_mapping r gs pf pn
          (snd (get_protein_mass_mapping r gs pf pn (w\<lparr>cache := []\<rparr>))))) =
     files (snd (get_protein_mass_mapping r gs pf pn (w\<lparr>cache := []\<rparr>)))"
proof -
  have ok: "\<forall>u\<in>set (dict_keys (uniprot_id_protein_id_mapping gs)).
              map_of (cache (w\<lparr>cache := []\<rparr>)) u \<noteq> Some Corrupt"
    by simp
  from run_ok(1) [OF ok, of r pf pn] rerun [OF ok refl, of r pf pn] show ?thesis
    by simp
qed

text \<open>
  C3, as stated, fails: with a third accession whose cache file does not unpickle, the
  lookup of PA fails, the lookup of PB succeeds, neither is in the cache folder, and the
  run ends with the exception of \<open>pickle_load\<close>, without an output.
\<close>

theorem partial_failure_counterexample:
  "map_of (cache (fresh_world [(''PC'', Corrupt)])) ''PA'' = None \<and>
   map_of (cache (fresh_world [(''PC'', Corrupt)])) ''PB'' = None \<and>
   uniprot_mass (fake_remote [(''PB'', 7)]) ''PA'' = None \<and>
   uniprot_mass (fake_remote [(''PB'', 7)]) ''PB'' = Some 7 \<and>
   uniprot_id_protein_id_mapping
     [gene_with ''gA'' ''PA'', gene_with ''gB'' ''PB'', gene_with ''gC'' ''PC''] =
     [(''PA'', [''gA'']), (''PB'', [''gB'']), (''PC'', [''gC''])] \<and>
   get_protein_mass_mapping (fake_remote [(''PB'', 7)])
     [gene_with ''gA'' ''PA'', gene_with ''gB'' ''PB'', gene_with ''gC'' ''PC''] ''out'' ''m''
     (fresh_world [(''PC'', Corrupt)]) =
   (Inl (CacheCorrupt ''PC''),
    \<lparr>cache = [(''PC'', Corrupt), (''PB'', Pickled 7)], files = [],
     stdout = [StartingSearch, UniProtSearchFor ''PA'', UniProtSearchFor ''PB''],
     requests = [uniprot_query_url ''PA'', uniprot_query_url ''PB''], sleeps = 2\<rparr>)"
  by (simp add: example_defs)

text \<open>
  C3, amended. Let no accession of the model have a cache file that does not unpickle, and
  let the \<open>id\<close>s of \<open>model.genes\<close> be distinct. For accessions A and B of the model, neither
  in the cache folder, with a lookup that fails for A and gives the mass \<open>m\<close> for B: the run
  ends with an output mapping and writes it; A is requested once and gets no cache file, B
  gets the cache file of \<open>m\<close>; the output maps every protein ID listed under B to \<open>m\<close> and
  has no entry for a protein ID listed under A.
\<close>

theorem partial_failure_containment:
  assumes "distinct (map gene_id gs)"
    and "\<forall>u\<in>set (dict_keys (uniprot_id_protein_id_mapping gs)). map_of (cache w) u \<noteq> Some Corrupt"
    and "map_of (uniprot_id_protein_id_mapping gs) A = Some idsA"
    and "map_of (uniprot_id_protein_id_mapping gs) B = Some idsB"
    and "map_of (cache w) A = None" and "map_of (cache w) B = None"
    and "uniprot_mass r A = None" and "uniprot_mass r B = Some m"
  shows "\<exists>out. fst (get_protein_mass_mapping r gs pf pn w) = Inr out \<and>
           map_of (files (snd (get_protein_mass_mapping r gs pf pn w))) (output_path pf pn) =
             Some (JsonFile out) \<and>
           (\<forall>p\<in>set idsB. map_of out p = Some m) \<and>
           (\<forall>p\<in>set idsA. map_of out p = None) \<and>
           count_list (requests (snd (get_protein_mass_mapping r gs pf pn w))) (uniprot_query_url A) =
             count_list (requests w) (uniprot_query_url A) + 1 \<and>
           map_of (cache (snd (get_protein_mass_mapping r gs pf pn w))) A = None \<and>
           map_of (cache (snd (get_protein_mass_mapping r gs pf pn w))) B = Some (Pickled m)"
proof -
  let ?mapping = "uniprot_id_protein_id_mapping gs"
  let ?masses = "resolved_masses r gs (cache w)"
  let ?out = "assembled ?mapping ?masses"
  note run = run_ok [OF assms(2), of r pf pn]
  from assms(3,4) in_keys_iff [of _ ?mapping]
  have A: "A \<in> set (dict_keys ?mapping)" and B: "B \<in> set (dict_keys ?mapping)" by simp_all
  from A assms(5,7) have mA: "map_of ?masses A = None"
    by (simp add: map_of_resolved_masses mass_source_def)
  from B assms(6,8) have mB: "map_of ?masses B = Some m"
    by (simp add: map_of_resolved_masses mass_source_def)
  have uniq: "b = a" if "map_of ?mapping a = Some ids" "map_of ?mapping b = Some ids'"
    "p \<in> set ids" "p \<in> set ids'" for a b ids ids' p
  proof -
    from group_Some_ids_of [OF that(1)] that(3) have 1: "p \<in> set (ids_of gs a)" by simp
    from group_Some_ids_of [OF that(2)] that(4) have 2: "p \<in> set (ids_of gs b)" by simp
    from ids_of_unique [OF assms(1) 2 1] show ?thesis .
  qed
  have outB: "map_of ?out p = Some m" if "p \<in> set idsB" for p
  proof -
    from uniq [OF assms(4) _ that]
    have "\<forall>b ids'. map_of ?mapping b = Some ids' \<longrightarrow> p \<in> set ids' \<longrightarrow> b = B" by blast
    from map_of_assembled_value [OF assms(4) that mB this] show ?thesis .
  qed
  have outA: "map_of ?out p = None" if "p \<in> set idsA" for p
  proof (rule ccontr)
    assume "map_of ?out p \<noteq> None"
    from map_of_assembled_None [OF this] obtain a ids m' where
      a: "map_of ?mapping a = Some ids" "map_of ?masses a = Some m'" "p \<in> set ids" by blast
    from uniq [OF assms(3) a(1) that a(3)] a(2) mA show False by simp
  qed
  from assms(5) in_keys_iff [of A "cache w"] have "A \<notin> set (dict_keys (cache w))" by simp
  with A have req: "count_list (requests (snd (get_protein_mass_mapping r gs pf pn w))) (uniprot_query_url A) =
             count_list (requests w) (uniprot_query_url A) + 1"
    by (simp only: run(4) count_list_append count_list_requested [OF distinct_uniprot_ids]) simp
  have cA: "map_of (cache (snd (get_protein_mass_mapping r gs pf pn w))) A = None"
    by (simp add: run(2) map_of_written_cache assms(5,7))
  have cB: "map_of (cache (snd (get_protein_mass_mapping r gs pf pn w))) B = Some (Pickled m)"
    using B by (simp add: run(2) map_of_written_cache assms(6,8))
  have f: "map_of (files (snd (get_protein_mass_mapping r gs pf pn w))) (output_path pf pn) =
             Some (JsonFile ?out)"
    by (simp add: run(3) update_conv')
  from run(1) f outA outB req cA cB show ?thesis by blast
qed

theorem partial_failure_containment_witness:
  "distinct (map gene_id [gene_with ''gA'' ''PA'', gene_with ''gB'' ''PB'', gene_with ''gC'' ''PC'']) \<and>
   map_of (cache (fresh_world [(''PC'', Pickled 3)])) ''PA'' \<noteq> Some Corrupt \<and>
   map_of (cache (fresh_world [(''PC'', Pickled 3)])) ''PB'' \<noteq> Some Corrupt \<and>
   map_of (cache (fresh_world [(''PC'', Pickled 3)])) ''PC'' \<noteq> Some Corrupt \<and>
   map_of (uniprot_id_protein_id_mapping
     [gene_with ''gA'' ''PA'', gene_with ''gB'' ''PB'', gene_with ''gC'' ''PC'']) ''PA'' = Some [''gA''] \<and>
   map_of (uniprot_id_protein_id_mapping
     [gene_with ''gA'' ''PA'', gene_with ''gB'' ''PB'', gene_with ''gC'' ''PC'']) ''PB'' = Some [''gB''] \<and>
   map_of (cache (fresh_world [(''PC'', Pickled 3)])) ''PA'' = None \<and>
   map_of (cache (fresh_world [(''PC'', Pickled 3)])) ''PB'' = None \<and>
   uniprot_mass (fake_remote [(''PB'', 7)]) ''PA'' = None \<and>
   uniprot_mass (fake_remote [(''PB'', 7)]) ''PB'' = Some 7 \<and>
   (\<exists>out. fst (get_protein_mass_mapping (fake_remote [(''PB'', 7)])
       [gene_with ''gA'' ''PA'', gene_with ''gB'' ''PB'', gene_with ''gC'' ''PC''] ''out'' ''m''
       (fresh_world [(''PC'', Pickled 3)])) = Inr out \<and>
     map_of out ''gB'' = Some 7 \<and> map_of out ''gA'' = None)"
proof -
  let ?gs = "[gene_with ''gA'' ''PA'', gene_with ''gB'' ''PB'', gene_with ''gC'' ''PC'']"
  let ?w = "fresh_world [(''PC'', Pickled 3)]"
  let ?r = "fake_remote [(''PB'', 7)]"
  have d: "distinct (map gene_id ?gs)" by (simp add: gene_with_def)
  have grp: "uniprot_id_protein_id_mapping ?gs = [(''PA'', [''gA'']), (''PB'', [''gB'']), (''PC'', [''gC''])]"
    by (simp add: example_defs)
  have ok: "\<forall>u\<in>set (dict_keys (uniprot_id_protein_id_mapping ?gs)). map_of (cache ?w) u \<noteq> Some Corrupt"
    by (simp add: grp fresh_world_def)
  have gA: "map_of (uniprot_id_protein_id_mapping ?gs) ''PA'' = Some [''gA'']" by (simp add: grp)
  have gB: "map_of (uniprot_id_protein_id_mapping ?gs) ''PB'' = Some [''gB'']" by (simp add: grp)
  have cA: "map_of (cache ?w) ''PA'' = None" by (simp add: fresh_world_def)
  have cB: "map_of (cache ?w) ''PB'' = None" by (simp add: fresh_world_def)
  have cC: "map_of (cache ?w) ''PC'' \<noteq> Some Corrupt" by (simp add: fresh_world_def)
  have rA: "uniprot_mass ?r ''PA'' = None"
    by (simp add: uniprot_mass_def fake_remote_def uniprot_query_url_def)
  have rB: "uniprot_mass ?r ''PB'' = Some 7"
    by (simp add: uniprot_mass_def fake_remote_def uniprot_query_url_def)
  from partial_failure_containment [OF d ok gA gB cA cB rA rB, of "''out''" "''m''"]
  have "\<exists>out. fst (get_protein_mass_mapping ?r ?gs ''out'' ''m'' ?w) = Inr out \<and>
     map_of out ''gB'' = Some 7 \<and> map_of out ''gA'' = None"
    by auto
  with d gA gB cA cB cC rA rB show ?thesis by simp
qed

text \<open>
  C8, on the input of the end-to-end example: P2 is a key of the grouping and has no mass,
  and the run prints the line of the search for P2 and no "No mass found" line for it.
\<close>

theorem unresolved_accession_is_not_reported:
  "get_protein_mass_mapping (fake_remote [(''P1'', 10.5)])
     [gene_with ''g1'' ''P1'', gene_with ''g2'' ''P2'', gene_without ''g3''] ''out'' ''m''
     (fresh_world []) =
   (Inr [(''g1'', 10.5)],
    \<lparr>cache = [(''P1'', Pickled 10.5)],
     files = [(''out/m_protein_id_mass_mapping.json'', JsonFile [(''g1'', 10.5)])],
     stdout = [StartingSearch, UniProtSearchFor ''P1'', UniProtSearchFor ''P2'', MappingDone],
     requests = [uniprot_query_url ''P1'', uniprot_query_url ''P2''], sleeps = 2\<rparr>) \<and>
   map_of (uniprot_id_protein_id_mapping
     [gene_with ''g1'' ''P1'', gene_with ''g2'' ''P2'', gene_without ''g3'']) ''P2'' = Some [''g2''] \<and>
   fst (uniprot_id_protein_mass_mapping (fake_remote [(''P1'', 10.5)])
     [gene_with ''g1'' ''P1'', gene_with ''g2'' ''P2'', gene_without ''g3''] (fresh_world [])) =
     Inr [(''P1'', 10.5)]"
  by (simp add: example_defs)

end
